theory Spec2Isabelle
  imports Main "HOL-Library.Word" "HOL-Library.Sublist"
begin

section \<open>Data model\<close>

text \<open>
  Modelled from the spec: the header \<^verbatim>\<open>lsst/pex/exceptions/Exception.h\<close>, which declares
  \<^verbatim>\<open>Tracepoint\<close>, \<^verbatim>\<open>Traceback\<close> and the members of \<^verbatim>\<open>Exception\<close>, is not among the sources.
  The spec gives a tracepoint four fields (file, line, function, message) and the
  exception a category tag and an ordered sequence of tracepoints. The field types are
  those of the constructor's parameters in \<^verbatim>\<open>Exception.cc\<close>: \<^verbatim>\<open>char const*\<close> and
  \<^verbatim>\<open>std::string\<close> are texts (a \<^verbatim>\<open>char const*\<close> stands for the characters it points to,
  up to its terminating NUL), \<^verbatim>\<open>int\<close> is a 32-bit signed machine integer.
\<close>

record Tracepoint =
  tp_file :: string
  tp_line :: "32 word"
  tp_func :: string
  tp_msg :: string

type_synonym Traceback = "Tracepoint list"

record Exception =
  ex_type :: string
  ex_traceback :: Traceback

text \<open>
  Modelled from the spec: the constructor \<^verbatim>\<open>Tracepoint(file, line, func, message)\<close> of the
  missing header stores its four arguments in the four fields.
\<close>

definition mk_Tracepoint :: "string \<Rightarrow> 32 word \<Rightarrow> string \<Rightarrow> string \<Rightarrow> Tracepoint" where
  "mk_Tracepoint file line func message =
     \<lparr>tp_file = file, tp_line = line, tp_func = func, tp_msg = message\<rparr>"

section \<open>Output streams\<close>

text \<open>
  \<^verbatim>\<open>std::ostream\<close> belongs to the C++ library, not to the repository. The model keeps what
  \<^verbatim>\<open>addToStream\<close> and \<^verbatim>\<open>what\<close> can observe of a stream with default formatting flags:
  \<^item> \<open>buf\<close>: the characters the destination has accepted so far;
  \<^item> \<open>room\<close>: how many more characters the destination accepts (\<open>None\<close>: no limit);
  \<^item> \<open>bad\<close>: an error bit of the stream state is set, so the stream is no longer good;
  \<^item> \<open>raising\<close>: the stream's exception mask selects the error bits, so that setting
    one raises \<^verbatim>\<open>std::ios_base::failure\<close>.
  A raised C++ exception is the left summand of the result; it carries the stream as the
  caller finds it, since the stream is passed by reference.
\<close>

datatype failure = ios_failure | bad_alloc

record ostream =
  buf :: string
  room :: "nat option"
  bad :: bool
  raising :: bool

type_synonym outcome = "(failure \<times> ostream) + ostream"

definition setstate :: "ostream \<Rightarrow> outcome" where
  "setstate s =
     (if raising s then Inl (ios_failure, s\<lparr>bad := True\<rparr>) else Inr (s\<lparr>bad := True\<rparr>))"

text \<open>
  One formatted insertion \<^verbatim>\<open>stream << text\<close>. On a stream that is not good nothing is
  written and an error bit is set again. Otherwise the characters go to the destination;
  when it takes only some of them, the error bit is set.
\<close>

definition put_str :: "string \<Rightarrow> ostream \<Rightarrow> outcome" where
  "put_str t s =
     (if bad s then setstate s
      else case room s of
        None \<Rightarrow> Inr (s\<lparr>buf := buf s @ t\<rparr>)
      | Some n \<Rightarrow>
          if length t \<le> n then Inr (s\<lparr>buf := buf s @ t, room := Some (n - length t)\<rparr>)
          else setstate (s\<lparr>buf := buf s @ take n t, room := Some 0\<rparr>))"

text \<open>A chain \<^verbatim>\<open>stream << a << b << ...\<close>: the insertions from left to right, stopping
  at the first one that raises.\<close>

fun puts :: "string list \<Rightarrow> ostream \<Rightarrow> outcome" where
  "puts [] s = Inr s"
| "puts (t # ts) s = (case put_str t s of Inl x \<Rightarrow> Inl x | Inr s' \<Rightarrow> puts ts s')"

text \<open>Decimal rendering of \<^verbatim>\<open>size_t\<close> and \<^verbatim>\<open>int\<close> values, and the newline \<^verbatim>\<open>std::endl\<close>
  inserts (its flush leaves the text unchanged).\<close>

definition digit :: "nat \<Rightarrow> char" where
  "digit d = ''0123456789'' ! d"

fun show_nat :: "nat \<Rightarrow> string" where
  "show_nat n = (if n < 10 then [digit n] else show_nat (n div 10) @ [digit (n mod 10)])"

declare show_nat.simps [simp del]

definition show_int :: "int \<Rightarrow> string" where
  "show_int i = (if i < 0 then CHR ''-'' # show_nat (nat (- i)) else show_nat (nat i))"

definition endl :: string where
  "endl = [CHR 0x0A]"

definition ostringstream :: ostream where
  "ostringstream = \<lparr>buf = [], room = None, bad = False, raising = False\<rparr>"

section \<open>The operations of \<^verbatim>\<open>Exception.cc\<close>\<close>

definition Exception_ctor ::
  "string \<Rightarrow> string \<Rightarrow> 32 word \<Rightarrow> string \<Rightarrow> string \<Rightarrow> Exception" where
  "Exception_ctor type file line func message =
     \<lparr>ex_type = type, ex_traceback = [] @ [mk_Tracepoint file line func message]\<rparr>"

definition addMessage ::
  "string \<Rightarrow> 32 word \<Rightarrow> string \<Rightarrow> string \<Rightarrow> Exception \<Rightarrow> Exception" where
  "addMessage file line func message e =
     e\<lparr>ex_traceback := ex_traceback e @ [mk_Tracepoint file line func message]\<rparr>"

definition getTraceback :: "Exception \<Rightarrow> Traceback" where
  "getTraceback e = ex_traceback e"

definition getType :: "Exception \<Rightarrow> string" where
  "getType e = ex_type e"

definition ctype :: "Exception \<Rightarrow> string" where
  "ctype e = ''lsst::pex::exceptions::Exception *''"

text \<open>The loop \<^verbatim>\<open>for (size_t i = 1; i < _traceback.size(); ++i)\<close> of \<^verbatim>\<open>addToStream\<close>,
  entered at index \<open>i\<close>.\<close>

function rethrown :: "Exception \<Rightarrow> nat \<Rightarrow> ostream \<Rightarrow> outcome" where
  "rethrown e i s =
     (if i < length (ex_traceback e) then
        (case puts [show_nat i, '': Rethrown at '',
                    tp_file (ex_traceback e ! i), '':'',
                    show_int (sint (tp_line (ex_traceback e ! i))), '' in '',
                    tp_func (ex_traceback e ! i), endl] s of
           Inl x \<Rightarrow> Inl x
         | Inr s1 \<Rightarrow>
             (case puts [show_nat i, '': Message: '', tp_msg (ex_traceback e ! i), endl] s1 of
                Inl x \<Rightarrow> Inl x
              | Inr s2 \<Rightarrow> rethrown e (i + 1) s2))
      else Inr s)"
  by pat_completeness auto
termination
  by (relation "measure (\<lambda>(e, i, s). length (ex_traceback e) - i)") auto

declare rethrown.simps [simp del]

definition addToStream :: "Exception \<Rightarrow> ostream \<Rightarrow> outcome" where
  "addToStream e s =
     (if length (ex_traceback e) > 0 then
        (case puts [''0: '', ex_type e, '' thrown at '',
                    tp_file (ex_traceback e ! 0), '':'',
                    show_int (sint (tp_line (ex_traceback e ! 0))), '' in '',
                    tp_func (ex_traceback e ! 0), endl] s of
           Inl x \<Rightarrow> Inl x
         | Inr s1 \<Rightarrow>
             (case puts [''0: Message: '', tp_msg (ex_traceback e ! 0), endl] s1 of
                Inl x \<Rightarrow> Inl x
              | Inr s2 \<Rightarrow> rethrown e 1 s2))
      else Inr s)"

text \<open>\<^verbatim>\<open>operator<<(stream, e)\<close>.\<close>

definition stream_insert :: "ostream \<Rightarrow> Exception \<Rightarrow> outcome" where
  "stream_insert s e = addToStream e s"

text \<open>
  \<^verbatim>\<open>what()\<close>. The body of its \<^verbatim>\<open>try\<close> block is \<open>what_try\<close>: a fresh
  \<^verbatim>\<open>std::ostringstream\<close> (its exception mask is clear), \<^verbatim>\<open>addToStream\<close> on it, and the
  copy \<^verbatim>\<open>buffer = s.str()\<close>. Both the growing buffer of the stream and the copy allocate,
  and either allocation can fail. The environment of a call says when:
  \<^item> \<open>cap\<close> is the number of characters the buffer of the stream can grow to before
    an allocation for it fails (\<open>None\<close>: none fails). The insertion that hits the
    limit sets the error bit of the stream and, the mask being clear, raises nothing;
    the block does not test the stream afterwards.
  \<^item> \<open>mem\<close> is the longest string the allocator still provides for the copy; a longer
    one raises \<^verbatim>\<open>std::bad_alloc\<close>.
  \<^verbatim>\<open>catch (...)\<close> turns every failure raised in the block into the return of \<^verbatim>\<open>_type\<close>.
  The result is a \<^verbatim>\<open>char const*\<close>: \<^verbatim>\<open>buffer.c_str()\<close> read as a C string ends before the
  first NUL character of the buffer. The function returns that text together with the new
  content of the static \<^verbatim>\<open>buffer\<close>.
\<close>

definition ostringstream_cap :: "nat option \<Rightarrow> ostream" where
  "ostringstream_cap cap = \<lparr>buf = [], room = cap, bad = False, raising = False\<rparr>"

definition str :: "nat \<Rightarrow> ostream \<Rightarrow> failure + string" where
  "str mem s = (if length (buf s) \<le> mem then Inr (buf s) else Inl bad_alloc)"

definition c_str :: "string \<Rightarrow> string" where
  "c_str t = takeWhile (\<lambda>c. c \<noteq> CHR 0x00) t"

definition what_try :: "Exception \<Rightarrow> nat option \<Rightarrow> nat \<Rightarrow> failure + string" where
  "what_try e cap mem =
     (case addToStream e (ostringstream_cap cap) of
        Inl (f, s') \<Rightarrow> Inl f
      | Inr s' \<Rightarrow> str mem s')"

definition what :: "Exception \<Rightarrow> nat option \<Rightarrow> nat \<Rightarrow> string \<Rightarrow> string \<times> string" where
  "what e cap mem old_buffer =
     (case what_try e cap mem of
        Inr t \<Rightarrow> (c_str t, t)
      | Inl f \<Rightarrow> (ex_type e, old_buffer))"

section \<open>Exceptions as objects in a store\<close>

text \<open>
  \<^verbatim>\<open>clone\<close> returns a pointer to a new object, and \<^verbatim>\<open>addMessage\<close> changes the object it
  is called on. The store is the list of the objects allocated so far; an address is a
  position in it, and \<^verbatim>\<open>new\<close> takes the next position. The traceback is a member held
  by value, so the copy constructor that \<^verbatim>\<open>clone\<close> calls copies \<^verbatim>\<open>_type\<close> and the
  whole vector into the new object. A call through an address that holds no object has
  no defined behaviour in C++: it is \<open>None\<close>. The allocations of \<^verbatim>\<open>new\<close> and
  \<^verbatim>\<open>push_back\<close> are taken to succeed; the source provides for a failing allocation in
  \<^verbatim>\<open>what\<close> only.
\<close>

type_synonym addr = nat

definition clone :: "addr \<Rightarrow> Exception list \<Rightarrow> (addr \<times> Exception list) option" where
  "clone this h =
     (if this < length h then
        Some (length h,
              h @ [\<lparr>ex_type = ex_type (h ! this), ex_traceback = ex_traceback (h ! this)\<rparr>])
      else None)"

definition addMessage_at ::
  "addr \<Rightarrow> string \<Rightarrow> 32 word \<Rightarrow> string \<Rightarrow> string \<Rightarrow> Exception list \<Rightarrow> Exception list option" where
  "addMessage_at this file line func message h =
     (if this < length h then Some (h[this := addMessage file line func message (h ! this)])
      else None)"

text \<open>A sequence of \<^verbatim>\<open>addMessage\<close> calls, one per tuple of arguments, on a value and on
  an object of the store.\<close>

fun addMessages :: "(string \<times> 32 word \<times> string \<times> string) list \<Rightarrow> Exception \<Rightarrow> Exception" where
  "addMessages [] e = e"
| "addMessages ((file, line, func, message) # cs) e =
     addMessages cs (addMessage file line func message e)"

fun addMessages_at ::
  "addr \<Rightarrow> (string \<times> 32 word \<times> string \<times> string) list \<Rightarrow> Exception list \<Rightarrow> Exception list option" where
  "addMessages_at this [] h = (if this < length h then Some h else None)"
| "addMessages_at this ((file, line, func, message) # cs) h =
     (case addMessage_at this file line func message h of
        None \<Rightarrow> None
      | Some h' \<Rightarrow> addMessages_at this cs h')"

text \<open>
  The calls a program can make on the exceptions of a store, and their effect on the
  store and on the static buffer of \<^verbatim>\<open>what\<close>. The member functions declared \<^verbatim>\<open>const\<close>
  leave every object as it is; what they return is not kept here.
\<close>

datatype call =
    AddMessage addr string "32 word" string string
  | GetTraceback addr
  | AddToStream addr ostream
  | What addr "nat option" nat
  | GetType addr
  | Clone addr

record world =
  heap :: "Exception list"
  what_buffer :: string

fun exec :: "call \<Rightarrow> world \<Rightarrow> world option" where
  "exec (AddMessage p file line func message) w =
     (case addMessage_at p file line func message (heap w) of
        None \<Rightarrow> None
      | Some h' \<Rightarrow> Some (w\<lparr>heap := h'\<rparr>))"
| "exec (GetTraceback p) w = (if p < length (heap w) then Some w else None)"
| "exec (AddToStream p s) w = (if p < length (heap w) then Some w else None)"
| "exec (What p cap mem) w =
     (if p < length (heap w)
      then Some (w\<lparr>what_buffer := snd (what (heap w ! p) cap mem (what_buffer w))\<rparr>)
      else None)"
| "exec (GetType p) w = (if p < length (heap w) then Some w else None)"
| "exec (Clone p) w =
     (case clone p (heap w) of
        None \<Rightarrow> None
      | Some (q, h') \<Rightarrow> Some (w\<lparr>heap := h'\<rparr>))"

fun run :: "call list \<Rightarrow> world \<Rightarrow> world option" where
  "run [] w = Some w"
| "run (c # cs) w = (case exec c w of None \<Rightarrow> None | Some w' \<Rightarrow> run cs w')"

section \<open>The report as the specification words it\<close>

text \<open>
  Entry 0 is the line \<^verbatim>\<open>0: <kind> thrown at <file>:<line> in <func>\<close>, every later entry
  \<open>i\<close> the line \<^verbatim>\<open>i: Rethrown at <file>:<line> in <func>\<close>; each is followed by the line
  \<^verbatim>\<open>i: Message: <message>\<close>, and each line ends with a newline. The report is the lines
  of the entries in traceback order.
\<close>

definition location :: "Tracepoint \<Rightarrow> string" where
  "location t = tp_file t @ '':'' @ show_int (sint (tp_line t)) @ '' in '' @ tp_func t"

definition thrown_line :: "string \<Rightarrow> Tracepoint \<Rightarrow> string" where
  "thrown_line kind t = ''0: '' @ kind @ '' thrown at '' @ location t"

definition rethrown_line :: "nat \<Rightarrow> Tracepoint \<Rightarrow> string" where
  "rethrown_line i t = show_nat i @ '': Rethrown at '' @ location t"

definition message_line :: "nat \<Rightarrow> Tracepoint \<Rightarrow> string" where
  "message_line i t = show_nat i @ '': Message: '' @ tp_msg t"

definition entry_lines :: "string \<Rightarrow> nat \<Rightarrow> Tracepoint \<Rightarrow> string" where
  "entry_lines kind i t =
     (if i = 0 then thrown_line kind t else rethrown_line i t) @ endl
     @ message_line i t @ endl"

definition report :: "Exception \<Rightarrow> string" where
  "report e =
     concat (map (\<lambda>i. entry_lines (ex_type e) i (ex_traceback e ! i))
                 [0..<length (ex_traceback e)])"

text \<open>The text an in-memory destination holds after \<^verbatim>\<open>addToStream\<close> has written to it.\<close>

definition rendered_text :: "Exception \<Rightarrow> string" where
  "rendered_text e =
     (case addToStream e ostringstream of Inl (f, s) \<Rightarrow> buf s | Inr s \<Rightarrow> buf s)"

text \<open>The part of a text that a destination with the given room takes, and whether
  that is all of it.\<close>

definition accepted :: "nat option \<Rightarrow> string \<Rightarrow> string" where
  "accepted cap t = (case cap of None \<Rightarrow> t | Some n \<Rightarrow> take n t)"

definition takes :: "nat option \<Rightarrow> string \<Rightarrow> bool" where
  "takes cap t = (case cap of None \<Rightarrow> True | Some n \<Rightarrow> length t \<le> n)"

text \<open>The stream as a call leaves it, whether the call returned or raised.\<close>

definition stream_after :: "outcome \<Rightarrow> ostream" where
  "stream_after r = (case r of Inl (f, s) \<Rightarrow> s | Inr s \<Rightarrow> s)"

section \<open>The insertions of \<^verbatim>\<open>addToStream\<close>, in order\<close>

text \<open>
  The operands of \<^verbatim>\<open><<\<close> in the two statements for entry 0, in the two statements of the
  loop body for entry \<open>i\<close>, and in a whole call: nothing when the traceback is empty,
  otherwise those of entry 0 followed by those of the entries from 1 on.
\<close>

definition thrown_insertions :: "string \<Rightarrow> Tracepoint \<Rightarrow> string list" where
  "thrown_insertions type t =
     [''0: '', type, '' thrown at '', tp_file t, '':'', show_int (sint (tp_line t)), '' in '',
      tp_func t, endl,
      ''0: Message: '', tp_msg t, endl]"

definition rethrown_insertions :: "nat \<Rightarrow> Tracepoint \<Rightarrow> string list" where
  "rethrown_insertions i t =
     [show_nat i, '': Rethrown at '', tp_file t, '':'', show_int (sint (tp_line t)), '' in '',
      tp_func t, endl,
      show_nat i, '': Message: '', tp_msg t, endl]"

definition insertions :: "Exception \<Rightarrow> string list" where
  "insertions e =
     (if length (ex_traceback e) > 0 then
        thrown_insertions (ex_type e) (ex_traceback e ! 0)
        @ concat (map (\<lambda>i. rethrown_insertions i (ex_traceback e ! i))
                      [1..<length (ex_traceback e)])
      else [])"

section \<open>Programs over the store, and a worked example\<close>

text \<open>The objects that a list of constructor calls leaves in a fresh store.\<close>

definition construct_all ::
  "(string \<times> string \<times> 32 word \<times> string \<times> string) list \<Rightarrow> Exception list" where
  "construct_all args =
     map (\<lambda>(type, file, line, func, message). Exception_ctor type file line func message) args"

text \<open>The object a call is made on.\<close>

fun target :: "call \<Rightarrow> addr" where
  "target (AddMessage p file line func message) = p"
| "target (GetTraceback p) = p"
| "target (AddToStream p s) = p"
| "target (What p cap mem) = p"
| "target (GetType p) = p"
| "target (Clone p) = p"

text \<open>
  The example of the specification: an \<^verbatim>\<open>Exception\<close> thrown at \<^verbatim>\<open>a.cc:10\<close> in \<^verbatim>\<open>f\<close> with
  the message \<^verbatim>\<open>boom\<close>, rethrown at \<^verbatim>\<open>b.cc:20\<close> in \<^verbatim>\<open>g\<close> with the message
  \<^verbatim>\<open>context\<close>.
\<close>

definition example_error :: Exception where
  "example_error =
     addMessage ''b.cc'' 20 ''g'' ''context''
       (Exception_ctor ''Exception'' ''a.cc'' 10 ''f'' ''boom'')"

text \<open>An exception whose message, a \<^verbatim>\<open>std::string\<close>, holds a NUL character.\<close>

definition nul_error :: Exception where
  "nul_error = Exception_ctor ''E'' ''a.cc'' 1 ''f'' [CHR ''b'', CHR 0x00, CHR ''m'']"

definition example_calls :: "call list" where
  "example_calls =
     [AddMessage 0 ''b.cc'' 20 ''g'' ''context'', Clone 0, What 1 None 10,
      AddToStream 0 ostringstream, GetTraceback 0, GetType 1]"

definition example_world :: world where
  "example_world = \<lparr>heap = [example_error, example_error], what_buffer = []\<rparr>"

section \<open>Writing to a stream\<close>

lemma put_str_append:
  "(case put_str a s of Inl x \<Rightarrow> Inl x | Inr s' \<Rightarrow> put_str b s') = put_str (a @ b) s"
  by (auto simp: put_str_def setstate_def split: option.splits)

lemma put_str_return:
  "(case put_str a s of Inl x \<Rightarrow> Inl x | Inr s' \<Rightarrow> Inr s') = put_str a s"
  by (simp split: sum.splits)

lemma put_str_then:
  "(\<And>s'. k s' = put_str b s') \<Longrightarrow>
   (case put_str a s of Inl x \<Rightarrow> Inl x | Inr s' \<Rightarrow> k s') = put_str (a @ b) s"
  unfolding put_str_append [symmetric] by (simp split: sum.splits)

lemma put_str_last:
  "(\<And>s'. k s' = Inr s') \<Longrightarrow>
   (case put_str a s of Inl x \<Rightarrow> Inl x | Inr s' \<Rightarrow> k s') = put_str a s"
  by (simp split: sum.splits)

lemma puts_concat:
  "ts \<noteq> [] \<Longrightarrow> puts ts s = put_str (concat ts) s"
proof (induction ts arbitrary: s)
  case Nil
  then show ?case by simp
next
  case (Cons t ts)
  show ?case
  proof (cases "ts = []")
    case True
    then show ?thesis by (simp split: sum.splits)
  next
    case False
    have "puts (t # ts) s = (case put_str t s of Inl x \<Rightarrow> Inl x | Inr s' \<Rightarrow> put_str (concat ts) s')"
      using Cons.IH [OF False] by (simp split: sum.splits)
    also have "\<dots> = put_str (t @ concat ts) s"
      by (rule put_str_append)
    finally show ?thesis by simp
  qed
qed

lemma show_nat_0: "show_nat 0 = ''0''"
  by (simp add: show_nat.simps digit_def)

lemma puts_puts:
  "ts \<noteq> [] \<Longrightarrow> us \<noteq> [] \<Longrightarrow>
   (case puts ts s of Inl x \<Rightarrow> Inl x
    | Inr s1 \<Rightarrow> (case puts us s1 of Inl x \<Rightarrow> Inl x | Inr s2 \<Rightarrow> k s2)) =
   (case put_str (concat ts @ concat us) s of Inl x \<Rightarrow> Inl x | Inr s2 \<Rightarrow> k s2)"
  by (simp add: puts_concat put_str_append [symmetric] del: puts.simps split: sum.splits)

lemma rethrown_step:
  "i < length (ex_traceback e) \<Longrightarrow> 0 < i \<Longrightarrow>
   rethrown e i s =
     (case put_str (entry_lines (ex_type e) i (ex_traceback e ! i)) s of
        Inl x \<Rightarrow> Inl x | Inr s' \<Rightarrow> rethrown e (i + 1) s')"
  by (subst rethrown.simps) (simp add: puts_puts entry_lines_def rethrown_line_def message_line_def location_def
      del: puts.simps)

lemma addToStream_step:
  "ex_traceback e \<noteq> [] \<Longrightarrow>
   addToStream e s =
     (case put_str (entry_lines (ex_type e) 0 (ex_traceback e ! 0)) s of
        Inl x \<Rightarrow> Inl x | Inr s' \<Rightarrow> rethrown e 1 s')"
  by (simp add: addToStream_def puts_puts entry_lines_def thrown_line_def message_line_def
      location_def show_nat_0 del: puts.simps)

lemma rethrown_report:
  "0 < i \<Longrightarrow> i < length (ex_traceback e) \<Longrightarrow>
   rethrown e i s =
     put_str (concat (map (\<lambda>i. entry_lines (ex_type e) i (ex_traceback e ! i))
                [i..<length (ex_traceback e)])) s"
proof (induction "length (ex_traceback e) - i" arbitrary: i s)
  case 0
  then show ?case by simp
next
  case (Suc k)
  let ?f = "\<lambda>i. entry_lines (ex_type e) i (ex_traceback e ! i)"
  let ?n = "length (ex_traceback e)"
  have step: "rethrown e i s =
     (case put_str (?f i) s of Inl x \<Rightarrow> Inl x | Inr s' \<Rightarrow> rethrown e (i + 1) s')"
    using Suc.prems by (simp add: rethrown_step)
  have upt: "[i..<?n] = i # [i + 1..<?n]"
    using Suc.prems by (simp add: upt_conv_Cons)
  show ?case
  proof (cases "i + 1 < ?n")
    case True
    have "k = ?n - (i + 1)" using Suc.hyps(2) by simp
    then have "\<And>s'. rethrown e (i + 1) s' = put_str (concat (map ?f [i + 1..<?n])) s'"
      using Suc.hyps(1) True by simp
    then have "rethrown e i s = put_str (?f i @ concat (map ?f [i + 1..<?n])) s"
      unfolding step by (rule put_str_then)
    then show ?thesis
      unfolding upt by simp
  next
    case False
    then have "\<And>s'. rethrown e (i + 1) s' = Inr s'"
      by (subst rethrown.simps) simp
    then have "rethrown e i s = put_str (?f i) s"
      unfolding step by (rule put_str_last)
    with False show ?thesis
      unfolding upt by simp
  qed
qed

lemma addToStream_report:
  assumes "ex_traceback e \<noteq> []"
  shows "addToStream e s = put_str (report e) s"
proof -
  let ?f = "\<lambda>i. entry_lines (ex_type e) i (ex_traceback e ! i)"
  let ?n = "length (ex_traceback e)"
  have n: "0 < ?n" using assms by simp
  have first: "addToStream e s =
     (case put_str (?f 0) s of Inl x \<Rightarrow> Inl x | Inr s2 \<Rightarrow> rethrown e 1 s2)"
    using assms by (rule addToStream_step)
  have upt: "[0..<?n] = 0 # [1..<?n]"
    using n by (simp add: upt_conv_Cons)
  show ?thesis
  proof (cases "1 < ?n")
    case True
    then have "\<And>s'. rethrown e 1 s' = put_str (concat (map ?f [1..<?n])) s'"
      by (simp add: rethrown_report)
    then have "addToStream e s = put_str (?f 0 @ concat (map ?f [1..<?n])) s"
      unfolding first by (rule put_str_then)
    then show ?thesis
      unfolding report_def upt by simp
  next
    case False
    then have "\<And>s'. rethrown e 1 s' = Inr s'"
      by (subst rethrown.simps) simp
    then have "addToStream e s = put_str (?f 0) s"
      unfolding first by (rule put_str_last)
    with False show ?thesis
      unfolding report_def upt by simp
  qed
qed

lemma addToStream_no_tracepoint:
  "ex_traceback e = [] \<Longrightarrow> addToStream e s = Inr s"
  by (simp add: addToStream_def)

lemma put_str_accepting:
  "\<not> bad s \<Longrightarrow> room s = None \<Longrightarrow> put_str t s = Inr (s\<lparr>buf := buf s @ t\<rparr>)"
  by (simp add: put_str_def)

lemma addToStream_ostringstream:
  "addToStream e ostringstream =
     Inr (ostringstream\<lparr>buf := (if ex_traceback e = [] then [] else report e)\<rparr>)"
proof (cases "ex_traceback e = []")
  case True
  then show ?thesis
    by (simp add: addToStream_no_tracepoint ostringstream_def)
next
  case False
  then show ?thesis
    by (simp add: addToStream_report put_str_accepting ostringstream_def)
qed

lemma rendered_text_report:
  "rendered_text e = (if ex_traceback e = [] then [] else report e)"
  by (simp add: rendered_text_def addToStream_ostringstream)

lemma addToStream_put_str:
  "addToStream e s = (if ex_traceback e = [] then Inr s else put_str (report e) s)"
  by (simp add: addToStream_no_tracepoint addToStream_report)

lemma addToStream_after:
  "buf (stream_after (addToStream e s)) =
     buf s @ (if bad s then [] else accepted (room s) (report e))"
proof (cases "ex_traceback e = []")
  case True
  then show ?thesis
    by (simp add: addToStream_put_str stream_after_def report_def accepted_def
        split: option.splits)
next
  case False
  then show ?thesis
    by (simp add: addToStream_put_str stream_after_def put_str_def setstate_def accepted_def
        split: option.splits)
qed

lemma addToStream_ostringstream_cap:
  "\<exists>s'. addToStream e (ostringstream_cap cap) = Inr s'
        \<and> buf s' = accepted cap (rendered_text e)"
proof (cases "ex_traceback e = []")
  case True
  then show ?thesis
    by (simp add: addToStream_put_str rendered_text_report ostringstream_cap_def accepted_def
        split: option.splits)
next
  case False
  then show ?thesis
    by (simp add: addToStream_put_str rendered_text_report ostringstream_cap_def put_str_def
        setstate_def accepted_def split: option.splits)
qed

lemma what_try_eq:
  "what_try e cap mem =
     (if length (accepted cap (rendered_text e)) \<le> mem
      then Inr (accepted cap (rendered_text e)) else Inl bad_alloc)"
proof -
  obtain s' where "addToStream e (ostringstream_cap cap) = Inr s'"
    and "buf s' = accepted cap (rendered_text e)"
    using addToStream_ostringstream_cap by blast
  then show ?thesis
    by (simp add: what_try_def str_def)
qed

lemma what_eq:
  "what e cap mem old_buffer =
     (if length (accepted cap (rendered_text e)) \<le> mem
      then (c_str (accepted cap (rendered_text e)), accepted cap (rendered_text e))
      else (ex_type e, old_buffer))"
  by (simp add: what_def what_try_eq)

lemma accepted_takes: "takes cap t \<Longrightarrow> accepted cap t = t"
  by (simp add: takes_def accepted_def split: option.splits)

lemma c_str_no_nul: "CHR 0x00 \<notin> set t \<Longrightarrow> c_str t = t"
  by (auto simp: c_str_def)

section \<open>The chain of insertions\<close>

lemma puts_append:
  "puts (ts @ us) s = (case puts ts s of Inl x \<Rightarrow> Inl x | Inr s' \<Rightarrow> puts us s')"
  by (induction ts arbitrary: s) (simp_all split: sum.splits)

lemma puts_then:
  "(\<And>s'. k s' = puts us s') \<Longrightarrow>
   (case puts ts s of Inl x \<Rightarrow> Inl x | Inr s' \<Rightarrow> k s') = puts (ts @ us) s"
  by (simp add: puts_append split: sum.splits)

lemma puts_raised:
  "puts ts s = Inr s1 \<Longrightarrow> put_str t s1 = Inl x \<Longrightarrow> puts (ts @ t # us) s = Inl x"
  by (simp add: puts_append)

lemma rethrown_insertions_step:
  assumes "i < length (ex_traceback e)"
    and "\<And>s'. rethrown e (i + 1) s' = puts rest s'"
  shows "rethrown e i s = puts (rethrown_insertions i (ex_traceback e ! i) @ rest) s"
proof -
  let ?t = "ex_traceback e ! i"
  let ?A = "[show_nat i, '': Rethrown at '', tp_file ?t, '':'',
             show_int (sint (tp_line ?t)), '' in '', tp_func ?t, endl]"
  let ?B = "[show_nat i, '': Message: '', tp_msg ?t, endl]"
  have inner: "\<And>s1. (case puts ?B s1 of Inl x \<Rightarrow> Inl x | Inr s2 \<Rightarrow> rethrown e (i + 1) s2) =
                  puts (?B @ rest) s1"
    using assms(2) by (rule puts_then)
  have "rethrown e i s =
          (case puts ?A s of Inl x \<Rightarrow> Inl x
           | Inr s1 \<Rightarrow> (case puts ?B s1 of Inl x \<Rightarrow> Inl x | Inr s2 \<Rightarrow> rethrown e (i + 1) s2))"
    using assms(1) by (subst rethrown.simps) (simp del: puts.simps)
  also have "\<dots> = puts (?A @ ?B @ rest) s"
    using inner by (rule puts_then)
  also have "?A @ ?B @ rest = rethrown_insertions i ?t @ rest"
    by (simp add: rethrown_insertions_def)
  finally show ?thesis .
qed

lemma rethrown_insertions_loop:
  "rethrown e i s =
     puts (concat (map (\<lambda>i. rethrown_insertions i (ex_traceback e ! i))
                       [i..<length (ex_traceback e)])) s"
proof (induction "length (ex_traceback e) - i" arbitrary: i s)
  case 0
  then have "\<not> i < length (ex_traceback e)" by simp
  then show ?case
    by (subst rethrown.simps) simp
next
  case (Suc k)
  let ?f = "\<lambda>i. rethrown_insertions i (ex_traceback e ! i)"
  let ?n = "length (ex_traceback e)"
  have i: "i < ?n" using Suc.hyps(2) by simp
  have "k = ?n - (i + 1)" using Suc.hyps(2) by simp
  then have "\<And>s'. rethrown e (i + 1) s' = puts (concat (map ?f [i + 1..<?n])) s'"
    by (rule Suc.hyps(1))
  with i have "rethrown e i s = puts (?f i @ concat (map ?f [i + 1..<?n])) s"
    by (rule rethrown_insertions_step)
  moreover have "[i..<?n] = i # [i + 1..<?n]"
    using i by (simp add: upt_conv_Cons)
  ultimately show ?case by simp
qed

lemma addToStream_insertions:
  "addToStream e s = puts (insertions e) s"
proof (cases "0 < length (ex_traceback e)")
  case False
  then show ?thesis
    by (simp add: addToStream_def insertions_def)
next
  case True
  let ?t = "ex_traceback e ! 0"
  let ?A = "[''0: '', ex_type e, '' thrown at '', tp_file ?t, '':'',
             show_int (sint (tp_line ?t)), '' in '', tp_func ?t, endl]"
  let ?B = "[''0: Message: '', tp_msg ?t, endl]"
  let ?rest = "concat (map (\<lambda>i. rethrown_insertions i (ex_traceback e ! i))
                 [1..<length (ex_traceback e)])"
  have loop: "\<And>s'. rethrown e 1 s' = puts ?rest s'"
    by (rule rethrown_insertions_loop)
  have inner: "\<And>s1. (case puts ?B s1 of Inl x \<Rightarrow> Inl x | Inr s2 \<Rightarrow> rethrown e 1 s2) =
                  puts (?B @ ?rest) s1"
    using loop by (rule puts_then)
  have "addToStream e s =
          (case puts ?A s of Inl x \<Rightarrow> Inl x
           | Inr s1 \<Rightarrow> (case puts ?B s1 of Inl x \<Rightarrow> Inl x | Inr s2 \<Rightarrow> rethrown e 1 s2))"
    using True by (simp add: addToStream_def del: puts.simps)
  also have "\<dots> = puts (?A @ ?B @ ?rest) s"
    using inner by (rule puts_then)
  also have "?A @ ?B @ ?rest = insertions e"
    using True by (simp add: insertions_def thrown_insertions_def)
  finally show ?thesis .
qed

section \<open>Sequences of calls and the store\<close>

lemma example_error_eq:
  "example_error =
     \<lparr>ex_type = ''Exception'',
      ex_traceback = [\<lparr>tp_file = ''a.cc'', tp_line = 10, tp_func = ''f'', tp_msg = ''boom''\<rparr>,
                      \<lparr>tp_file = ''b.cc'', tp_line = 20, tp_func = ''g'', tp_msg = ''context''\<rparr>]\<rparr>"
  by (simp add: example_error_def addMessage_def Exception_ctor_def mk_Tracepoint_def)

lemma report_example_error:
  "report example_error =
     ''0: Exception thrown at a.cc:10 in f'' @ [CHR 0x0A] @
     ''0: Message: boom'' @ [CHR 0x0A] @
     ''1: Rethrown at b.cc:20 in g'' @ [CHR 0x0A] @
     ''1: Message: context'' @ [CHR 0x0A]"
  by (simp add: example_error_eq report_def entry_lines_def thrown_line_def rethrown_line_def
      message_line_def location_def show_int_def show_nat.simps digit_def endl_def)

lemma addMessages_traceback:
  "ex_traceback (addMessages cs e) =
     ex_traceback e @ map (\<lambda>(file, line, func, message). mk_Tracepoint file line func message) cs"
  by (induction cs e rule: addMessages.induct) (simp_all add: addMessage_def)

lemma addMessages_type:
  "ex_type (addMessages cs e) = ex_type e"
  by (induction cs e rule: addMessages.induct) (simp_all add: addMessage_def)

lemma addMessages_at_eq:
  "addMessages_at p cs h =
     (if p < length h then Some (h[p := addMessages cs (h ! p)]) else None)"
  by (induction p cs h rule: addMessages_at.induct) (simp_all add: addMessage_at_def)

lemma clone_Some:
  "clone p h = Some (q, h') \<longleftrightarrow> p < length h \<and> q = length h \<and> h' = h @ [h ! p]"
  by (auto simp: clone_def)

lemma exec_length:
  "exec c w = Some w' \<Longrightarrow> length (heap w) \<le> length (heap w')"
  by (cases c) (auto simp: addMessage_at_def clone_def split: if_splits)

lemma exec_prefix:
  "exec c w = Some w' \<Longrightarrow> p < length (heap w) \<Longrightarrow>
   prefix (ex_traceback (heap w ! p)) (ex_traceback (heap w' ! p))
   \<and> ex_type (heap w' ! p) = ex_type (heap w ! p)"
  by (cases c)
    (auto simp: addMessage_at_def clone_def nth_list_update nth_append addMessage_def
      split: if_splits)

lemma exec_nonempty:
  "exec c w = Some w' \<Longrightarrow> \<forall>p < length (heap w). ex_traceback (heap w ! p) \<noteq> [] \<Longrightarrow>
   p < length (heap w') \<Longrightarrow> ex_traceback (heap w' ! p) \<noteq> []"
  by (cases c)
    (auto simp: addMessage_at_def clone_def nth_list_update nth_append addMessage_def
      split: if_splits)

lemma run_length:
  "run cs w = Some w' \<Longrightarrow> length (heap w) \<le> length (heap w')"
proof (induction cs arbitrary: w)
  case Nil
  then show ?case by simp
next
  case (Cons c cs)
  then obtain w1 where 1: "exec c w = Some w1" and 2: "run cs w1 = Some w'"
    by (auto split: option.splits)
  from exec_length [OF 1] Cons.IH [OF 2] show ?case by simp
qed

lemma run_prefix:
  "run cs w = Some w' \<Longrightarrow> p < length (heap w) \<Longrightarrow>
   prefix (ex_traceback (heap w ! p)) (ex_traceback (heap w' ! p))
   \<and> ex_type (heap w' ! p) = ex_type (heap w ! p)"
proof (induction cs arbitrary: w)
  case Nil
  then show ?case by simp
next
  case (Cons c cs)
  then obtain w1 where 1: "exec c w = Some w1" and 2: "run cs w1 = Some w'"
    by (auto split: option.splits)
  have p1: "p < length (heap w1)"
    using exec_length [OF 1] Cons.prems(2) by simp
  from exec_prefix [OF 1 Cons.prems(2)] Cons.IH [OF 2 p1] show ?case
    by (auto intro: prefix_order.trans)
qed

lemma run_nonempty:
  "run cs w = Some w' \<Longrightarrow> \<forall>p < length (heap w). ex_traceback (heap w ! p) \<noteq> [] \<Longrightarrow>
   p < length (heap w') \<Longrightarrow> ex_traceback (heap w' ! p) \<noteq> []"
proof (induction cs arbitrary: w)
  case Nil
  then show ?case by simp
next
  case (Cons c cs)
  then obtain w1 where 1: "exec c w = Some w1" and 2: "run cs w1 = Some w'"
    by (auto split: option.splits)
  have "\<forall>p < length (heap w1). ex_traceback (heap w1 ! p) \<noteq> []"
    using exec_nonempty [OF 1 Cons.prems(2)] by blast
  from Cons.IH [OF 2 this Cons.prems(3)] show ?case .
qed

lemma exec_defined:
  "target c < length (heap w) \<Longrightarrow> \<exists>w'. exec c w = Some w'"
  by (cases c) (auto simp: addMessage_at_def clone_def)

lemma run_defined:
  "\<forall>c \<in> set cs. target c < length (heap w) \<Longrightarrow> \<exists>w'. run cs w = Some w'"
proof (induction cs arbitrary: w)
  case Nil
  then show ?case by simp
next
  case (Cons c cs)
  then obtain w1 where 1: "exec c w = Some w1"
    using exec_defined [of c w] by auto
  have "\<forall>c \<in> set cs. target c < length (heap w1)"
    using Cons.prems exec_length [OF 1] by fastforce
  from Cons.IH [OF this] 1 show ?case by simp
qed

lemma construct_all_nonempty:
  "p < length (construct_all args) \<Longrightarrow> ex_traceback (construct_all args ! p) \<noteq> []"
  by (auto simp: construct_all_def Exception_ctor_def split: prod.splits)

lemma rendered_text_example_error:
  "rendered_text example_error =
     ''0: Exception thrown at a.cc:10 in f'' @ [CHR 0x0A] @
     ''0: Message: boom'' @ [CHR 0x0A] @
     ''1: Rethrown at b.cc:20 in g'' @ [CHR 0x0A] @
     ''1: Message: context'' @ [CHR 0x0A]"
proof -
  have "ex_traceback example_error \<noteq> []"
    by (simp add: example_error_eq)
  then show ?thesis
    by (simp add: rendered_text_report report_example_error)
qed

lemma rendered_text_nul_error:
  "rendered_text nul_error =
     ''0: E thrown at a.cc:1 in f'' @ [CHR 0x0A] @
     ''0: Message: b'' @ [CHR 0x00] @ ''m'' @ [CHR 0x0A]"
  by (simp add: rendered_text_report nul_error_def Exception_ctor_def mk_Tracepoint_def
      report_def entry_lines_def thrown_line_def message_line_def location_def show_int_def
      show_nat.simps digit_def endl_def)

lemma what_example_error_copy_fails:
  "what example_error None 10 b = (ex_type example_error, b)"
  unfolding what_eq rendered_text_example_error by (simp add: accepted_def)

lemma run_example_calls:
  "run example_calls
     \<lparr>heap = construct_all [(''Exception'', ''a.cc'', 10, ''f'', ''boom'')], what_buffer = []\<rparr> =
   Some example_world"
  by (simp add: example_calls_def example_world_def construct_all_def addMessage_at_def
      clone_def what_example_error_copy_fails [unfolded example_error_eq] example_error_eq
      addMessage_def Exception_ctor_def mk_Tracepoint_def)

section \<open>The claims\<close>

text \<open>
  Claim C1. For every exception with a non-empty traceback, \<^verbatim>\<open>addToStream\<close> writes to
  the stream exactly the report of the specification: in traceback order, two lines per
  tracepoint, \<^verbatim>\<open>0: <kind> thrown at <file>:<line> in <func>\<close> and \<^verbatim>\<open>0: Message: <message>\<close>
  for entry 0, \<^verbatim>\<open>i: Rethrown at <file>:<line> in <func>\<close> and \<^verbatim>\<open>i: Message: <message>\<close>
  for every later entry \<open>i\<close>, each line ended by a newline. The call is one insertion
  of that text, whatever the state of the stream; on a stream that is good and accepts
  every character the text is appended to what the stream held.
\<close>

theorem addToStream_writes_report:
  "getTraceback e \<noteq> [] \<Longrightarrow>
   addToStream e s = put_str (report e) s
   \<and> (\<not> bad s \<and> room s = None \<longrightarrow> addToStream e s = Inr (s\<lparr>buf := buf s @ report e\<rparr>))"
  by (simp add: getTraceback_def addToStream_report put_str_accepting)

theorem addToStream_writes_report_witness:
  "getTraceback example_error \<noteq> []
   \<and> addToStream example_error ostringstream =
       Inr \<lparr>buf = ''0: Exception thrown at a.cc:10 in f'' @ [CHR 0x0A] @
                   ''0: Message: boom'' @ [CHR 0x0A] @
                   ''1: Rethrown at b.cc:20 in g'' @ [CHR 0x0A] @
                   ''1: Message: context'' @ [CHR 0x0A],
            room = None, bad = False, raising = False\<rparr>"
proof -
  have ne: "getTraceback example_error \<noteq> []"
    by (simp add: getTraceback_def example_error_eq)
  have acc: "\<not> bad ostringstream \<and> room ostringstream = None"
    by (simp add: ostringstream_def)
  from addToStream_writes_report [OF ne, of ostringstream] acc
  have "addToStream example_error ostringstream =
          Inr (ostringstream\<lparr>buf := buf ostringstream @ report example_error\<rparr>)"
    by blast
  then show ?thesis
    using ne by (simp add: report_example_error ostringstream_def)
qed

text \<open>
  Claim C2. For all constructor inputs (kind, file, line, func, message) the traceback of
  the new exception is exactly one tracepoint, holding that file, line, function and
  message, and \<open>getType\<close> returns the given kind.
\<close>

theorem ctor_single_tracepoint:
  "getTraceback (Exception_ctor type file line func message) =
     [\<lparr>tp_file = file, tp_line = line, tp_func = func, tp_msg = message\<rparr>]
   \<and> length (getTraceback (Exception_ctor type file line func message)) = 1
   \<and> getType (Exception_ctor type file line func message) = type"
  by (simp add: Exception_ctor_def getTraceback_def getType_def mk_Tracepoint_def)

text \<open>
  Claim C3. After any sequence of \<open>N\<close> calls of \<^verbatim>\<open>addMessage\<close> the traceback is the
  earlier traceback followed by the \<open>N\<close> new tracepoints in call order: the earlier
  entries are unchanged, the kind is unchanged, and on a newly constructed exception the
  length is \<open>N + 1\<close>.
\<close>

theorem addMessage_append_only:
  "getTraceback (addMessages cs e) =
     getTraceback e @ map (\<lambda>(file, line, func, message). mk_Tracepoint file line func message) cs
   \<and> take (length (getTraceback e)) (getTraceback (addMessages cs e)) = getTraceback e
   \<and> getType (addMessages cs e) = getType e
   \<and> length (getTraceback (addMessages cs (Exception_ctor type file line func message))) =
       length cs + 1"
  by (simp add: getTraceback_def getType_def addMessages_traceback addMessages_type
      Exception_ctor_def)

text \<open>
  Claim C4. \<^verbatim>\<open>clone\<close> returns a new object (at an address no object had before, every
  earlier object left as it was) whose kind and traceback equal the source's. The two
  share no state: any later sequence of \<^verbatim>\<open>addMessage\<close> calls on the original extends the
  original and leaves the copy unchanged, and any such sequence on the copy extends the
  copy and leaves the original unchanged.
\<close>

theorem clone_independent_copy:
  "clone p h = Some (q, h') \<Longrightarrow>
   q \<noteq> p \<and> \<not> q < length h
   \<and> getType (h' ! q) = getType (h ! p)
   \<and> getTraceback (h' ! q) = getTraceback (h ! p)
   \<and> (\<forall>r < length h. h' ! r = h ! r)
   \<and> (\<exists>h''. addMessages_at p cs h' = Some h''
          \<and> getTraceback (h'' ! p) =
               getTraceback (h ! p) @
               map (\<lambda>(file, line, func, message). mk_Tracepoint file line func message) cs
          \<and> h'' ! q = h' ! q)
   \<and> (\<exists>h''. addMessages_at q cs h' = Some h''
          \<and> getTraceback (h'' ! q) =
               getTraceback (h ! p) @
               map (\<lambda>(file, line, func, message). mk_Tracepoint file line func message) cs
          \<and> h'' ! p = h' ! p)"
  by (auto simp: clone_Some addMessages_at_eq getType_def getTraceback_def nth_append
      addMessages_traceback)

theorem clone_independent_copy_witness:
  "clone 0 [example_error] = Some (1, [example_error, example_error])
   \<and> (\<exists>h''. addMessages_at 0 [(''c.cc'', 30, ''h'', ''more'')] [example_error, example_error] =
              Some h''
          \<and> h'' ! 1 = example_error)
   \<and> (\<exists>h''. addMessages_at 1 [(''c.cc'', 30, ''h'', ''more'')] [example_error, example_error] =
              Some h''
          \<and> h'' ! 0 = example_error)"
proof -
  have c: "clone 0 [example_error] = Some (1, [example_error, example_error])"
    by (simp add: clone_def)
  show ?thesis
    using c clone_independent_copy [OF c, of "[(''c.cc'', 30, ''h'', ''more'')]"]
    by auto
qed

text \<open>
  Claim C5, as amended. When the in-memory stream of \<^verbatim>\<open>what()\<close> takes the whole report,
  \<^verbatim>\<open>what()\<close> returns the text \<^verbatim>\<open>addToStream\<close> writes to an in-memory stream for the same
  exception, read as a C string (the text before its first NUL character), and keeps
  the whole text in its static buffer, provided the copy of the text can be allocated;
  when the copy cannot be allocated it returns the kind and leaves the buffer as it was.
  So the returned text is the rendered text itself when the copy can be allocated and the
  rendered text holds no NUL.
\<close>

theorem what_is_c_str_of_rendered_text:
  "takes cap (rendered_text e) \<Longrightarrow>
   what e cap mem old_buffer =
     (if length (rendered_text e) \<le> mem then (c_str (rendered_text e), rendered_text e)
      else (getType e, old_buffer))
   \<and> (length (rendered_text e) \<le> mem \<and> CHR 0x00 \<notin> set (rendered_text e) \<longrightarrow>
        fst (what e cap mem old_buffer) = rendered_text e)"
  by (simp add: what_eq accepted_takes c_str_no_nul getType_def)

theorem what_is_c_str_of_rendered_text_witness:
  "takes (Some 200) (rendered_text example_error)
   \<and> length (rendered_text example_error) \<le> 200
   \<and> CHR 0x00 \<notin> set (rendered_text example_error)
   \<and> fst (what example_error (Some 200) 200 ''earlier text'') =
       ''0: Exception thrown at a.cc:10 in f'' @ [CHR 0x0A] @
       ''0: Message: boom'' @ [CHR 0x0A] @
       ''1: Rethrown at b.cc:20 in g'' @ [CHR 0x0A] @
       ''1: Message: context'' @ [CHR 0x0A]"
proof -
  have fits: "takes (Some 200) (rendered_text example_error)"
    by (simp add: takes_def rendered_text_example_error)
  have len: "length (rendered_text example_error) \<le> 200"
    by (simp add: rendered_text_example_error)
  have nul: "CHR 0x00 \<notin> set (rendered_text example_error)"
    by (simp add: rendered_text_example_error)
  from what_is_c_str_of_rendered_text [OF fits, of 200 "''earlier text''"] len nul
  have "fst (what example_error (Some 200) 200 ''earlier text'') = rendered_text example_error"
    by blast
  then show ?thesis
    using fits len nul by (simp add: rendered_text_example_error)
qed

text \<open>
  Claim C5 as stated fails. For a message holding a NUL character \<^verbatim>\<open>what()\<close> returns the
  rendered text only up to the NUL; and when the copy of the rendered text cannot be
  allocated it returns the kind.
\<close>

theorem what_differs_counterexample:
  "rendered_text nul_error =
     ''0: E thrown at a.cc:1 in f'' @ [CHR 0x0A] @
     ''0: Message: b'' @ [CHR 0x00] @ ''m'' @ [CHR 0x0A]
   \<and> fst (what nul_error None 100 []) =
       ''0: E thrown at a.cc:1 in f'' @ [CHR 0x0A] @ ''0: Message: b''
   \<and> fst (what nul_error None 100 []) \<noteq> rendered_text nul_error
   \<and> fst (what example_error None 10 []) = ''Exception''
   \<and> fst (what example_error None 10 []) \<noteq> rendered_text example_error"
proof -
  have a: "fst (what nul_error None 100 []) =
       ''0: E thrown at a.cc:1 in f'' @ [CHR 0x0A] @ ''0: Message: b''"
    unfolding what_eq rendered_text_nul_error by (simp add: accepted_def c_str_def)
  have b: "fst (what example_error None 10 []) = ''Exception''"
    unfolding what_eq rendered_text_example_error by (simp add: accepted_def example_error_eq)
  show ?thesis
    unfolding a b by (simp add: rendered_text_nul_error rendered_text_example_error)
qed

text \<open>
  Claim C6, as amended. \<^verbatim>\<open>addToStream\<close> has no failure handling and no fallback of its
  own: its outcome is that of its insertions, made in order. A failure raised by any
  one of them reaches the caller unchanged, with the stream as that insertion left it;
  when none raises, the stream is returned. Either way the stream then holds what it
  held before followed by the part of the report it accepted (nothing when it was
  already bad), never the kind in place of the report.
\<close>

theorem addToStream_no_failure_handling:
  "addToStream e s = puts (insertions e) s
   \<and> (\<forall>ts t us s1 x.
         insertions e = ts @ t # us \<and> puts ts s = Inr s1 \<and> put_str t s1 = Inl x \<longrightarrow>
         addToStream e s = Inl x)
   \<and> buf (stream_after (addToStream e s)) =
       buf s @ (if bad s then [] else accepted (room s) (report e))"
proof (intro conjI allI impI)
  show "addToStream e s = puts (insertions e) s"
    by (rule addToStream_insertions)
next
  fix ts t us s1 x
  assume "insertions e = ts @ t # us \<and> puts ts s = Inr s1 \<and> put_str t s1 = Inl x"
  then show "addToStream e s = Inl x"
    by (simp add: addToStream_insertions puts_raised)
next
  show "buf (stream_after (addToStream e s)) =
          buf s @ (if bad s then [] else accepted (room s) (report e))"
    by (rule addToStream_after)
qed

theorem addToStream_no_failure_handling_witness:
  "insertions (Exception_ctor ''Exception'' ''a.cc'' 10 ''f'' ''boom'') =
     [''0: ''] @ ''Exception'' #
     ['' thrown at '', ''a.cc'', '':'', ''10'', '' in '', ''f'', [CHR 0x0A],
      ''0: Message: '', ''boom'', [CHR 0x0A]]
   \<and> puts [''0: ''] \<lparr>buf = [], room = Some 5, bad = False, raising = True\<rparr> =
       Inr \<lparr>buf = ''0: '', room = Some 2, bad = False, raising = True\<rparr>
   \<and> put_str ''Exception'' \<lparr>buf = ''0: '', room = Some 2, bad = False, raising = True\<rparr> =
       Inl (ios_failure, \<lparr>buf = ''0: Ex'', room = Some 0, bad = True, raising = True\<rparr>)
   \<and> addToStream (Exception_ctor ''Exception'' ''a.cc'' 10 ''f'' ''boom'')
        \<lparr>buf = [], room = Some 5, bad = False, raising = True\<rparr> =
       Inl (ios_failure, \<lparr>buf = ''0: Ex'', room = Some 0, bad = True, raising = True\<rparr>)"
proof -
  let ?e = "Exception_ctor ''Exception'' ''a.cc'' 10 ''f'' ''boom''"
  let ?us = "['' thrown at '', ''a.cc'', '':'', ''10'', '' in '', ''f'', [CHR 0x0A],
              ''0: Message: '', ''boom'', [CHR 0x0A]]"
  let ?s = "\<lparr>buf = [], room = Some 5, bad = False, raising = True\<rparr>"
  let ?s1 = "\<lparr>buf = ''0: '', room = Some 2, bad = False, raising = True\<rparr>"
  let ?x = "(ios_failure, \<lparr>buf = ''0: Ex'', room = Some 0, bad = True, raising = True\<rparr>)"
  have i: "insertions ?e = [''0: ''] @ ''Exception'' # ?us"
    by (simp add: insertions_def thrown_insertions_def Exception_ctor_def mk_Tracepoint_def
        show_int_def show_nat.simps digit_def endl_def)
  have p: "puts [''0: ''] ?s = Inr ?s1"
    by (simp add: put_str_def)
  have q: "put_str ''Exception'' ?s1 = Inl ?x"
    by (simp add: put_str_def setstate_def)
  from addToStream_no_failure_handling [of ?e ?s] i p q
  have "addToStream ?e ?s = Inl ?x"
    by blast
  with i p q show ?thesis
    by (intro conjI)
qed

text \<open>
  Claim C6 as stated fails. With room for five characters only, a stream whose exception
  mask is set raises out of \<^verbatim>\<open>addToStream\<close>, and one whose mask is clear is returned
  bad; either way the stream holds the first five characters of the report, not the kind.
\<close>

theorem addToStream_propagates_counterexample:
  "addToStream (Exception_ctor ''Exception'' ''a.cc'' 10 ''f'' ''boom'')
     \<lparr>buf = [], room = Some 5, bad = False, raising = True\<rparr> =
   Inl (ios_failure, \<lparr>buf = ''0: Ex'', room = Some 0, bad = True, raising = True\<rparr>)
   \<and> addToStream (Exception_ctor ''Exception'' ''a.cc'' 10 ''f'' ''boom'')
     \<lparr>buf = [], room = Some 5, bad = False, raising = False\<rparr> =
   Inr \<lparr>buf = ''0: Ex'', room = Some 0, bad = True, raising = False\<rparr>"
  by (simp add: addToStream_def Exception_ctor_def mk_Tracepoint_def put_str_def setstate_def
      rethrown.simps)

text \<open>
  Claim C7. The code departs from the claim. When the buffer of the stream inside
  \<^verbatim>\<open>what()\<close> cannot grow beyond five characters, the failing insertion only sets the
  error bit of the stream; nothing is raised, \<^verbatim>\<open>what()\<close> does not test the stream, and
  it returns the first five characters of the report, not the kind \<^verbatim>\<open>Exception\<close>.
\<close>

theorem what_returns_truncated_report:
  "what example_error (Some 5) 100 ''earlier text'' = (''0: Ex'', ''0: Ex'')
   \<and> bad (stream_after (addToStream example_error (ostringstream_cap (Some 5))))
   \<and> getType example_error = ''Exception''"
proof -
  have w: "what example_error (Some 5) 100 ''earlier text'' = (''0: Ex'', ''0: Ex'')"
    unfolding what_eq rendered_text_example_error by (simp add: accepted_def c_str_def)
  have "ex_traceback example_error \<noteq> []"
    by (simp add: example_error_eq)
  then have "addToStream example_error (ostringstream_cap (Some 5)) =
               put_str (report example_error) (ostringstream_cap (Some 5))"
    by (simp add: addToStream_put_str)
  then have b: "bad (stream_after (addToStream example_error (ostringstream_cap (Some 5))))"
    by (simp add: report_example_error ostringstream_cap_def put_str_def setstate_def
        stream_after_def)
  show ?thesis
    using w b by (simp add: getType_def example_error_eq)
qed

text \<open>
  Claim C8. For an exception whose traceback is empty \<^verbatim>\<open>addToStream\<close> writes nothing
  and returns the stream as it was, whatever the state of the stream.
\<close>

theorem addToStream_empty_traceback:
  "getTraceback e = [] \<Longrightarrow> addToStream e s = Inr s"
  by (simp add: getTraceback_def addToStream_no_tracepoint)

theorem addToStream_empty_traceback_witness:
  "getTraceback \<lparr>ex_type = ''Exception'', ex_traceback = []\<rparr> = []
   \<and> addToStream \<lparr>ex_type = ''Exception'', ex_traceback = []\<rparr>
        \<lparr>buf = ''log: '', room = Some 0, bad = True, raising = True\<rparr> =
       Inr \<lparr>buf = ''log: '', room = Some 0, bad = True, raising = True\<rparr>"
proof -
  have emp: "getTraceback \<lparr>ex_type = ''Exception'', ex_traceback = []\<rparr> = []"
    by (simp add: getTraceback_def)
  show ?thesis
    using emp addToStream_empty_traceback [OF emp] by simp
qed

text \<open>
  Claim C9. Start from a store of newly constructed exceptions and make any sequence of
  calls (\<^verbatim>\<open>addMessage\<close>, \<^verbatim>\<open>getTraceback\<close>, \<^verbatim>\<open>addToStream\<close>, \<^verbatim>\<open>what\<close>, \<^verbatim>\<open>getType\<close>,
  \<^verbatim>\<open>clone\<close>). Then every object of the store, copies included, has at least one
  tracepoint; and whatever calls follow, each object is still there, its kind is the
  same, and its traceback begins with the traceback it had: entries are only ever
  appended.
\<close>

theorem traceback_only_grows:
  "run cs \<lparr>heap = construct_all args, what_buffer = b\<rparr> = Some w' \<Longrightarrow>
   (\<forall>p < length (heap w'). getTraceback (heap w' ! p) \<noteq> [])
   \<and> (\<forall>cs' w''. run cs' w' = Some w'' \<longrightarrow>
         (\<forall>p < length (heap w').
            p < length (heap w'')
            \<and> prefix (getTraceback (heap w' ! p)) (getTraceback (heap w'' ! p))
            \<and> getType (heap w'' ! p) = getType (heap w' ! p)))"
proof (intro conjI allI impI)
  fix p
  assume r: "run cs \<lparr>heap = construct_all args, what_buffer = b\<rparr> = Some w'"
    and p: "p < length (heap w')"
  have "\<forall>p < length (heap \<lparr>heap = construct_all args, what_buffer = b\<rparr>).
          ex_traceback (heap \<lparr>heap = construct_all args, what_buffer = b\<rparr> ! p) \<noteq> []"
    by (simp add: construct_all_nonempty)
  from run_nonempty [OF r this p] show "getTraceback (heap w' ! p) \<noteq> []"
    by (simp add: getTraceback_def)
next
  fix cs' w'' p
  assume "run cs' w' = Some w''" "p < length (heap w')"
  from run_length [OF this(1)] this(2) show "p < length (heap w'')"
    by simp
next
  fix cs' w'' p
  assume "run cs' w' = Some w''" "p < length (heap w')"
  from run_prefix [OF this]
  show "prefix (getTraceback (heap w' ! p)) (getTraceback (heap w'' ! p))"
    by (simp add: getTraceback_def)
next
  fix cs' w'' p
  assume "run cs' w' = Some w''" "p < length (heap w')"
  from run_prefix [OF this]
  show "getType (heap w'' ! p) = getType (heap w' ! p)"
    by (simp add: getType_def)
qed

theorem traceback_only_grows_witness:
  "run example_calls
     \<lparr>heap = construct_all [(''Exception'', ''a.cc'', 10, ''f'', ''boom'')], what_buffer = []\<rparr> =
   Some example_world
   \<and> getTraceback (heap example_world ! 0) \<noteq> []
   \<and> getTraceback (heap example_world ! 1) \<noteq> []
   \<and> run [AddMessage 1 ''c.cc'' 30 ''h'' ''more''] example_world =
       Some \<lparr>heap = [example_error, addMessage ''c.cc'' 30 ''h'' ''more'' example_error],
              what_buffer = []\<rparr>
   \<and> prefix (getTraceback example_error)
        (getTraceback (addMessage ''c.cc'' 30 ''h'' ''more'' example_error))"
proof -
  let ?w2 = "\<lparr>heap = [example_error, addMessage ''c.cc'' 30 ''h'' ''more'' example_error],
              what_buffer = []\<rparr>"
  have r2: "run [AddMessage 1 ''c.cc'' 30 ''h'' ''more''] example_world = Some ?w2"
    by (simp add: example_world_def addMessage_at_def)
  have len: "length (heap example_world) = 2"
    by (simp add: example_world_def)
  note t = traceback_only_grows [OF run_example_calls]
  from t have "getTraceback (heap example_world ! 0) \<noteq> []"
    and "getTraceback (heap example_world ! 1) \<noteq> []"
    by (simp_all add: len)
  moreover from t r2
  have "prefix (getTraceback (heap example_world ! 1)) (getTraceback (heap ?w2 ! 1))"
    using len by (metis one_less_numeral_iff semiring_norm(76))
  then have "prefix (getTraceback example_error)
        (getTraceback (addMessage ''c.cc'' 30 ''h'' ''more'' example_error))"
    by (simp add: example_world_def)
  ultimately show ?thesis
    using run_example_calls r2 by simp
qed

text \<open>
  Claim C10. \<^verbatim>\<open>operator<<(stream, e)\<close> does to the stream, and returns, exactly what
  \<^verbatim>\<open>e.addToStream(stream)\<close> does and returns.
\<close>

theorem stream_insert_is_addToStream:
  "stream_insert s e = addToStream e s"
  by (simp add: stream_insert_def)

end
